theory Spec2Isabelle
  imports Main "HOL-Library.Word" "HOL-Library.List_Lexorder"
begin

unbundle bit_operations_syntax

section \<open>Data model\<close>

text \<open>
  The converter of \<^verbatim>\<open>tools/convertImage.py\<close> works on NumPy arrays of unsigned
  bytes and of unsigned 16-bit words. A two-dimensional array is a list of rows, a
  three-dimensional array of shape (height, width, channels) a list of rows of pixels,
  each pixel the list of its channel bytes. Channels are \<open>8 word\<close>, colour words
  \<open>16 word\<close>, so that arithmetic wraps as NumPy's does.
\<close>

type_synonym u8 = "8 word"
type_synonym u16 = "16 word"

text \<open>
  Every exception the code can raise is a value: \<open>RuntimeError k n\<close> is the one
  \<^verbatim>\<open>quantizeImage\<close> raises (\<open>k\<close> unique colours found, \<open>n\<close> allowed),
  \<open>ValueError\<close> and \<open>IndexError\<close> are NumPy's, and the two \<open>ParserError\<close>
  constructors are the two calls of \<^verbatim>\<open>parser.error\<close> in \<^verbatim>\<open>main\<close>.
\<close>

datatype error =
    RuntimeError nat nat
  | ValueError
  | IndexError
  | ParserError_NoPalettePath
  | ParserError_Colors nat nat

text \<open>
  A Pillow image of mode P, as far as the converter reads it: the index of every pixel
  (\<^verbatim>\<open>np.asarray(imageObj, "B")\<close>), the palette entries in the raw mode they were stored
  with (three bytes for RGB, four for RGBA), and the byte string
  \<^verbatim>\<open>imageObj.info["transparency"]\<close> when the image carries one.
\<close>

record image_P =
  pixels :: "u8 list list"
  palette :: "u8 list list"
  transparency :: "u8 list option"

text \<open>
  \<^verbatim>\<open>a.shape[1]\<close> of a two-dimensional array. A NumPy array is rectangular, so the
  width is the length of any row; \<open>rectangular\<close> states this of a list of rows.
\<close>

definition shape1 :: "'a list list \<Rightarrow> nat" where
  "shape1 a = (case a of [] \<Rightarrow> 0 | row # _ \<Rightarrow> length row)"

definition rectangular :: "'a list list \<Rightarrow> bool" where
  "rectangular a = (\<forall>row \<in> set a. length row = shape1 a)"

section \<open>Input image handling\<close>

text \<open>\<^verbatim>\<open>a.reshape((h, w))\<close> of a flat array: \<open>h\<close> rows of \<open>w\<close> elements, in order.\<close>

fun reshape :: "nat \<Rightarrow> nat \<Rightarrow> 'a list \<Rightarrow> 'a list list" where
  "reshape 0 w xs = []"
| "reshape (Suc h) w xs = take w xs # reshape h w (drop w xs)"

text \<open>
  \<^verbatim>\<open>np.unique(ar, return_inverse = True, axis = 0)\<close>: the distinct rows of \<open>ar\<close> in
  ascending order (rows of bytes compare lexicographically, first byte first, which is
  the order of \<open>HOL-Library.List_Lexorder\<close>), and for every row of \<open>ar\<close> its position
  among them.
\<close>

fun index_of :: "'a list \<Rightarrow> 'a \<Rightarrow> nat" where
  "index_of [] y = 0"
| "index_of (x # xs) y = (if x = y then 0 else Suc (index_of xs y))"

definition unique_rows :: "u8 list list \<Rightarrow> u8 list list \<times> nat list" where
  "unique_rows ar = (let u = sort (remdups ar) in (u, map (index_of u) ar))"

text \<open>
  \<^verbatim>\<open>quantizeImage(imageObj, numColors)\<close>. The argument \<open>img\<close> is the array of line 34,
  that is the image in mode RGB or RGBA (an image of another mode is converted to RGBA
  by Pillow first). The pixels are flattened, made unique, and the positions are cast to
  unsigned bytes (\<^verbatim>\<open>astype("B")\<close>, which keeps the low eight bits) and reshaped to
  height by width. The new image has the unique colours as its palette and no
  transparency entry. A palette image holds at most 256 colours:
  \<^verbatim>\<open>newObj.putpalette\<close> raises ValueError (invalid palette size) when it is given more.
\<close>

definition quantizeImage :: "u8 list list list \<Rightarrow> nat \<Rightarrow> error + image_P" where
  "quantizeImage img numColors =
     (let (clut, inverse) = unique_rows (concat img)
      in if length clut > numColors then Inl (RuntimeError (length clut) numColors)
         else if length clut > 256 then Inl ValueError
         else Inr \<lparr> pixels = reshape (length img) (shape1 img) (map (\<lambda>i. (word_of_nat i :: u8)) inverse),
                    palette = clut,
                    transparency = None \<rparr>)"

text \<open>
  One palette entry or pixel read in mode RGBA (\<^verbatim>\<open>getpalette("RGBA")\<close>,
  \<^verbatim>\<open>convert("RGBA")\<close>): an RGB entry gets the alpha byte 255.
\<close>

fun rgba_entry :: "u8 list \<Rightarrow> u8 list" where
  "rgba_entry [r8, g8, b8] = [r8, g8, b8, 0xff]"
| "rgba_entry c = c"

text \<open>\<^verbatim>\<open>bytes.ljust(n, fill)\<close>: padded on the right up to length \<open>n\<close>, never cut.\<close>

definition ljust :: "'a list \<Rightarrow> nat \<Rightarrow> 'a \<Rightarrow> 'a list" where
  "ljust bs n fill = bs @ replicate (n - length bs) fill"

text \<open>
  \<^verbatim>\<open>np.frombuffer(buf)\<close> is called with no element type, so NumPy reads the buffer as
  64-bit floats: eight bytes make one element, and a buffer whose length is not a
  multiple of eight raises ValueError. The value of a float, cast back to an unsigned
  byte when it is stored into the palette, is not modelled: the parameter \<open>float_cast\<close>
  stands for the function from the eight bytes of an element to the byte stored.
\<close>

fun frombuffer :: "(u8 list \<Rightarrow> u8) \<Rightarrow> u8 list \<Rightarrow> error + u8 list" where
  "frombuffer float_cast (b0 # b1 # b2 # b3 # b4 # b5 # b6 # b7 # rest) =
     (case frombuffer float_cast rest of Inl e \<Rightarrow> Inl e
      | Inr vs \<Rightarrow> Inr (float_cast [b0, b1, b2, b3, b4, b5, b6, b7] # vs))"
| "frombuffer float_cast [] = Inr []"
| "frombuffer float_cast _ = Inl ValueError"

text \<open>
  \<^verbatim>\<open>clut[:, 3] = vs\<close>: the values are stored one per entry when there are as many
  values as entries, one value is broadcast to every entry, and any other number of
  values raises ValueError.
\<close>

definition assign_alpha :: "u8 list list \<Rightarrow> u8 list \<Rightarrow> error + u8 list list" where
  "assign_alpha clut vs =
     (if length vs = length clut then Inr (map2 (\<lambda>c v. c[3 := v]) clut vs)
      else if length vs = 1 then Inr (map (\<lambda>c. c[3 := hd vs]) clut)
      else Inl ValueError)"

definition getImagePalette :: "(u8 list \<Rightarrow> u8) \<Rightarrow> image_P \<Rightarrow> error + u8 list list" where
  "getImagePalette float_cast imageObj =
     (let clut = map rgba_entry (palette imageObj)
      in case transparency imageObj of
           None \<Rightarrow> Inr clut
         | Some alpha \<Rightarrow>
             (case frombuffer float_cast (ljust alpha (length clut) 0xff) of
                Inl e \<Rightarrow> Inl e
              | Inr vs \<Rightarrow> assign_alpha clut vs))"

section \<open>Image data conversion\<close>

definition LOWER_ALPHA_BOUND :: nat where "LOWER_ALPHA_BOUND = 32"
definition UPPER_ALPHA_BOUND :: nat where "UPPER_ALPHA_BOUND = 224"

definition TRANSPARENT_COLOR :: u16 where "TRANSPARENT_COLOR = 0x0000"
definition BLACK_COLOR :: u16 where "BLACK_COLOR = 0x0421"
definition STP_BLACK_COLOR :: u16 where "STP_BLACK_COLOR = 0x8000"

text \<open>
  \<^verbatim>\<open>to16bpp\<close> first widens the bytes to unsigned 16-bit words
  (\<^verbatim>\<open>astype("<H")\<close>) and computes every channel, \<open>solid\<close> and
  \<open>semitransparent\<close> in that type; \<open>channel5\<close> is the expression of the lines of
  \<^verbatim>\<open>r\<close>, \<^verbatim>\<open>g\<close> and \<^verbatim>\<open>b\<close>.
\<close>

definition channel5 :: "u8 \<Rightarrow> u16" where
  "channel5 c8 = (((ucast c8 :: u16) * 31) + 127) div 255"

definition solid :: "u8 \<Rightarrow> u8 \<Rightarrow> u8 \<Rightarrow> u16" where
  "solid r8 g8 b8 = (channel5 r8 OR push_bit 5 (channel5 g8)) OR push_bit 10 (channel5 b8)"

definition semitransparent :: "u8 \<Rightarrow> u8 \<Rightarrow> u8 \<Rightarrow> u16" where
  "semitransparent r8 g8 b8 = solid r8 g8 b8 OR push_bit 15 1"

text \<open>\<^verbatim>\<open>np.copyto(dst, src, where = wh)\<close> at one element.\<close>

definition copyto :: "'a \<Rightarrow> 'a \<Rightarrow> bool \<Rightarrow> 'a" where
  "copyto dst src wh = (if wh then src else dst)"

text \<open>
  \<^verbatim>\<open>to16bpp\<close> at one pixel. The array operations of the source act on every pixel
  alike, so the function on arrays maps this one over the rows. The alpha byte is
  channel 3 when the pixel has exactly four channels and 255 otherwise; a pixel with
  fewer than three channels has no channel 2, where the source raises IndexError.
\<close>

fun to16bpp_px :: "u8 list \<Rightarrow> bool \<Rightarrow> bool \<Rightarrow> error + u16" where
  "to16bpp_px (r8 # g8 # b8 # rest) forceSTP useSTPBlack =
     (let data = TRANSPARENT_COLOR;
          alpha = (case rest of [a8] \<Rightarrow> a8 | _ \<Rightarrow> 0xff);
          data = copyto data (semitransparent r8 g8 b8) (unat alpha \<ge> LOWER_ALPHA_BOUND);
          data = (if \<not> forceSTP then
                    (let data = copyto data (solid r8 g8 b8) (unat alpha \<ge> UPPER_ALPHA_BOUND)
                     in copyto data (if useSTPBlack then STP_BLACK_COLOR else BLACK_COLOR)
                          (unat alpha \<ge> UPPER_ALPHA_BOUND \<and> solid r8 g8 b8 = TRANSPARENT_COLOR))
                  else data)
      in Inr data)"
| "to16bpp_px _ _ _ = Inl IndexError"

text \<open>The results of a list of computations, or the first error among them.\<close>

fun sequence :: "(error + 'a) list \<Rightarrow> error + 'a list" where
  "sequence [] = Inr []"
| "sequence (x # xs) =
     (case x of Inl e \<Rightarrow> Inl e
      | Inr y \<Rightarrow> (case sequence xs of Inl e \<Rightarrow> Inl e | Inr ys \<Rightarrow> Inr (y # ys)))"

definition to16bpp :: "u8 list list list \<Rightarrow> bool \<Rightarrow> bool \<Rightarrow> error + u16 list list" where
  "to16bpp inputData forceSTP useSTPBlack =
     sequence (map (\<lambda>row. sequence (map (\<lambda>px. to16bpp_px px forceSTP useSTPBlack) row)) inputData)"

text \<open>
  \<^verbatim>\<open>np.c_[a, np.zeros((rows, n))]\<close>: \<open>n\<close> zero columns appended to every row;
  \<^verbatim>\<open>np.zeros\<close> raises ValueError on a negative dimension.
\<close>

definition c_zeros :: "'a::zero list list \<Rightarrow> int \<Rightarrow> error + 'a list list" where
  "c_zeros a n = (if n < 0 then Inl ValueError else Inr (map (\<lambda>row. row @ replicate (nat n) 0) a))"

text \<open>The slices \<^verbatim>\<open>row[0::2]\<close> and \<^verbatim>\<open>row[1::2]\<close>.\<close>

fun slice_even :: "'a list \<Rightarrow> 'a list" where
  "slice_even (x # y # zs) = x # slice_even zs"
| "slice_even xs = xs"

fun slice_odd :: "'a list \<Rightarrow> 'a list" where
  "slice_odd (x # y # zs) = y # slice_odd zs"
| "slice_odd xs = []"

text \<open>
  \<^verbatim>\<open>image[:, 0::2] | (image[:, 1::2] << 4)\<close> on one row. The shift is on unsigned
  bytes, so the high four bits of an odd column are lost.
\<close>

definition pack_nibbles :: "u8 list \<Rightarrow> u8 list" where
  "pack_nibbles row = map2 (\<lambda>lo hi. lo OR push_bit 4 hi) (slice_even row) (slice_odd row)"

text \<open>
  The block the source runs twice: when the width is odd, one column of zeros is
  appended (\<^verbatim>\<open>np.c_[image, np.zeros((imageObj.height, 1), "B")]\<close>).
\<close>

definition pad_odd_width :: "'a::zero list list \<Rightarrow> 'a list list" where
  "pad_odd_width img = (if odd (shape1 img) then map (\<lambda>row. row @ [0]) img else img)"

text \<open>
  \<^verbatim>\<open>convertIndexedImage\<close>. The palette is reshaped to one row of RGBA pixels and
  encoded; \<open>numColors\<close> is the number of its entries and decides both the size the
  palette is padded to and whether the pixels are packed two to a byte. The function
  takes no colour depth.
\<close>

definition convertIndexedImage ::
  "(u8 list \<Rightarrow> u8) \<Rightarrow> image_P \<Rightarrow> bool \<Rightarrow> bool \<Rightarrow> error + (u8 list list \<times> u16 list list)" where
  "convertIndexedImage float_cast imageObj forceSTP useSTPBlack =
     (case getImagePalette float_cast imageObj of Inl e \<Rightarrow> Inl e | Inr pal \<Rightarrow>
      case to16bpp [pal] forceSTP useSTPBlack of Inl e \<Rightarrow> Inl e | Inr clut \<Rightarrow>
        (let numColors = shape1 clut;
             padAmount = (if numColors \<le> 16 then 16 else 256) - int numColors
         in case (if padAmount \<noteq> 0 then c_zeros clut padAmount else Inr clut) of
              Inl e \<Rightarrow> Inl e
            | Inr clut \<Rightarrow>
                (let img = pixels imageObj;
                     img = pad_odd_width img;
                     img = (if numColors \<le> 16 then pad_odd_width (map pack_nibbles img) else img)
                 in Inr (img, clut))))"

section \<open>Main\<close>

text \<open>
  The parsed command line: the colour depth (4, 8 or 16), the two flags, the input image
  as an RGB or RGBA array, and whether a palette path was given. The result is what is
  written to the image file and, for an indexed image, to the palette file.
\<close>

record args =
  bpp :: nat
  force_stp :: bool
  stp_black :: bool
  input :: "u8 list list list"
  clutOutput :: bool

datatype output_image = Direct16 "u16 list list" | Indexed "u8 list list"

definition convert_RGBA :: "u8 list list list \<Rightarrow> u8 list list list" where
  "convert_RGBA img = map (map rgba_entry) img"

text \<open>
  \<^verbatim>\<open>main\<close>. At depth 16 the call is \<^verbatim>\<open>to16bpp(imageData, args.force_stp)\<close>:
  the third parameter keeps its default, False. \<^verbatim>\<open>parser.error\<close> ends the run.
\<close>

definition main :: "(u8 list \<Rightarrow> u8) \<Rightarrow> args \<Rightarrow> error + (output_image \<times> u16 list list option)" where
  "main float_cast a =
     (if bpp a = 16 then
        (case to16bpp (convert_RGBA (input a)) (force_stp a) False of
           Inl e \<Rightarrow> Inl e
         | Inr d \<Rightarrow> Inr (Direct16 d, None))
      else if \<not> clutOutput a then Inl ParserError_NoPalettePath
      else
        (case quantizeImage (input a) (2 ^ bpp a) of
           Inl (RuntimeError k l) \<Rightarrow> Inl (ParserError_Colors k l)
         | Inl e \<Rightarrow> Inl e
         | Inr img \<Rightarrow>
             (case convertIndexedImage float_cast img (force_stp a) (stp_black a) of
                Inl e \<Rightarrow> Inl e
              | Inr (imageData, clutData) \<Rightarrow> Inr (Indexed imageData, Some clutData))))"

section \<open>Notions of the specification\<close>

text \<open>
  The channel rescale as the specification writes it, on unbounded integers:
  \<open>c5 = (c8 * 31 + 127) / 255\<close>, rounded down.
\<close>

definition c5 :: "nat \<Rightarrow> nat" where
  "c5 c8 = (c8 * 31 + 127) div 255"

text \<open>The number of distinct colours of an image.\<close>

definition distinct_colors :: "u8 list list list \<Rightarrow> nat" where
  "distinct_colors img = card (set (concat img))"

text \<open>
  An image of one row with 257 distinct colours: red runs from 0 to 255 with green 0,
  and the last pixel has green 1.
\<close>

definition colors257 :: "u8 list list list" where
  "colors257 = [map (\<lambda>i. [word_of_nat i, 0, 0, 255]) [0..<256] @ [[0, 1, 0, 255]]]"

text \<open>One row with a zero appended when its length is odd.\<close>

definition pad_row :: "'a::zero list \<Rightarrow> 'a list" where
  "pad_row row = (if odd (length row) then row @ [0] else row)"

lemmas eval_defs = convertIndexedImage_def getImagePalette_def to16bpp_def c_zeros_def shape1_def
  pad_odd_width_def pack_nibbles_def copyto_def solid_def semitransparent_def channel5_def
  LOWER_ALPHA_BOUND_def UPPER_ALPHA_BOUND_def TRANSPARENT_COLOR_def BLACK_COLOR_def STP_BLACK_COLOR_def
  quantizeImage_def unique_rows_def main_def convert_RGBA_def

section \<open>Colour encoder\<close>

lemma unat_u8_less: "unat (c :: u8) < 256"
  using unsigned_less [of c, where 'a = nat] by simp

lemma channel5_no_overflow: "unat (((ucast (c :: u8) :: u16) * 31) + 127) = unat c * 31 + 127"
proof -
  have c: "unat c < 256" by (rule unat_u8_less)
  have u: "unat (ucast c :: u16) = unat c"
    using c by (simp add: unsigned_ucast_eq take_bit_nat_eq_self)
  show ?thesis using c by (simp add: unat_word_ariths u)
qed

lemma unat_channel5: "unat (channel5 c) = c5 (unat c)"
  by (simp add: channel5_def c5_def unat_div channel5_no_overflow)

lemma c5_le_31: "c5 (unat (c :: u8)) \<le> 31"
  using unat_u8_less [of c] by (simp add: c5_def)

lemma channel5_eq: "channel5 c = word_of_nat (c5 (unat c))"
  by (metis of_nat_unat ucast_id unat_channel5)

lemma not_bit_nat_above: "x < 2 ^ n \<Longrightarrow> n \<le> k \<Longrightarrow> \<not> bit (x::nat) k"
proof -
  assume a: "x < 2 ^ n" and b: "n \<le> k"
  have "(2::nat) ^ n \<le> 2 ^ k" using b by (simp add: power_increasing)
  with a have "x < 2 ^ k" by (rule less_le_trans)
  then show ?thesis by (simp add: bit_iff_odd)
qed

lemma or_push_bit_nat: "x < 2 ^ n \<Longrightarrow> (x::nat) OR push_bit n y = x + y * 2 ^ n"
proof -
  assume a: "x < 2 ^ n"
  have "x AND push_bit n y = 0"
    by (rule bit_eqI) (auto simp: bit_simps dest: not_bit_nat_above [OF a])
  then have "x + push_bit n y = x OR push_bit n y" by (rule disjunctive_add_eq_or)
  then show ?thesis by (simp add: push_bit_eq_mult)
qed

lemma unat_solid: "unat (solid r g b) = c5 (unat r) + 32 * c5 (unat g) + 1024 * c5 (unat b)"
proof -
  have r: "c5 (unat r) \<le> 31" and g: "c5 (unat g) \<le> 31" and b: "c5 (unat b) \<le> 31"
    by (rule c5_le_31)+
  have pg: "unat (push_bit 5 (channel5 g)) = c5 (unat g) * 32"
    using g by (simp add: push_bit_eq_mult unat_word_ariths unat_channel5)
  have pb: "unat (push_bit 10 (channel5 b)) = c5 (unat b) * 1024"
    using b by (simp add: push_bit_eq_mult unat_word_ariths unat_channel5)
  have 1: "c5 (unat r) OR c5 (unat g) * 32 = c5 (unat r) + c5 (unat g) * 32"
    using or_push_bit_nat [of "c5 (unat r)" 5 "c5 (unat g)"] r by (simp add: push_bit_eq_mult)
  have 2: "(c5 (unat r) + c5 (unat g) * 32) OR c5 (unat b) * 1024 = c5 (unat r) + c5 (unat g) * 32 + c5 (unat b) * 1024"
    using or_push_bit_nat [of "c5 (unat r) + c5 (unat g) * 32" 10 "c5 (unat b)"] r g by (simp add: push_bit_eq_mult)
  show ?thesis
    by (simp add: solid_def unsigned_or_eq pg pb unat_channel5 1 2)
qed

text \<open>
  Claim C5. A colour whose alpha is below 32 is encoded as \<open>0x0000\<close>, whatever its red,
  green and blue and whatever the two flags; a colour whose alpha is at least 32 and
  below 224 is encoded as the semitransparent word \<open>solid OR 0x8000\<close>, also when
  \<open>forceSTP\<close> is false.
\<close>

theorem to16bpp_alpha_bands: "(unat a < 32 \<longrightarrow> to16bpp_px [r, g, b, a] forceSTP useSTPBlack = Inr 0x0000) \<and>
   (32 \<le> unat a \<and> unat a < 224 \<longrightarrow> to16bpp_px [r, g, b, a] forceSTP useSTPBlack = Inr (solid r g b OR 0x8000))"
  by (simp add: copyto_def semitransparent_def LOWER_ALPHA_BOUND_def UPPER_ALPHA_BOUND_def TRANSPARENT_COLOR_def)

theorem to16bpp_alpha_bands_witness:
  "unat (31 :: u8) < 32 \<and> to16bpp_px [200, 100, 50, 31] True True = Inr 0x0000 \<and>
   32 \<le> unat (100 :: u8) \<and> unat (100 :: u8) < 224 \<and>
   to16bpp_px [255, 0, 0, 100] False False = Inr 0x801F"
  using to16bpp_alpha_bands [where a = 31 and r = 200 and g = 100 and b = 50 and forceSTP = True and useSTPBlack = True]
        to16bpp_alpha_bands [where a = 100 and r = 255 and g = 0 and b = 0 and forceSTP = False and useSTPBlack = False]
  by (simp add: solid_def channel5_def)

text \<open>
  Claim C1. For a colour with alpha at least 224 whose solid word is \<open>0x0000\<close>: with
  \<open>forceSTP\<close> false the result is \<open>0x0421\<close> when \<open>useSTPBlack\<close> is false and
  \<open>0x8000\<close> when it is true; with \<open>forceSTP\<close> true no remap is applied and the result
  is \<open>solid OR 0x8000\<close>, that is \<open>0x8000\<close>, whatever \<open>useSTPBlack\<close> is.
\<close>

theorem to16bpp_black_remap: "224 \<le> unat a \<Longrightarrow> solid r g b = 0x0000 \<Longrightarrow>
   to16bpp_px [r, g, b, a] False False = Inr 0x0421 \<and>
   to16bpp_px [r, g, b, a] False True = Inr 0x8000 \<and>
   to16bpp_px [r, g, b, a] True useSTPBlack = Inr 0x8000 \<and>
   to16bpp_px [r, g, b, a] True useSTPBlack = Inr (solid r g b OR 0x8000)"
  by (simp add: copyto_def semitransparent_def LOWER_ALPHA_BOUND_def UPPER_ALPHA_BOUND_def TRANSPARENT_COLOR_def BLACK_COLOR_def STP_BLACK_COLOR_def)

theorem to16bpp_black_remap_witness:
  "224 \<le> unat (224 :: u8) \<and> solid 4 0 2 = 0x0000 \<and>
   to16bpp_px [4, 0, 2, 224] False False = Inr 0x0421 \<and>
   to16bpp_px [4, 0, 2, 224] False True = Inr 0x8000 \<and>
   to16bpp_px [4, 0, 2, 224] True False = Inr 0x8000 \<and>
   to16bpp_px [4, 0, 2, 224] True True = Inr 0x8000"
  using to16bpp_black_remap [where a = 224 and r = 4 and g = 0 and b = 2 and useSTPBlack = False]
        to16bpp_black_remap [where a = 224 and r = 4 and g = 0 and b = 2 and useSTPBlack = True]
  by (simp add: solid_def channel5_def)

text \<open>
  Claim C6. For a colour with alpha at least 224 and a nonzero solid word, encoded with
  \<open>forceSTP\<close> false, the result is \<open>R5 OR (G5 << 5) OR (B5 << 10)\<close>, where each
  five-bit channel is the integer \<open>(c8 * 31 + 127) div 255\<close> of the eight-bit channel.
  The three fields do not overlap (the word's value is \<open>R5 + 32 * G5 + 1024 * B5\<close>, every
  channel at most 31), and the 16-bit computation of \<open>c8 * 31 + 127\<close> never wraps.
\<close>

theorem to16bpp_solid_rescale:
  assumes "224 \<le> unat a" and "solid r g b \<noteq> 0x0000"
  shows "\<exists>w. to16bpp_px [r, g, b, a] False useSTPBlack = Inr w \<and>
           w = (word_of_nat (c5 (unat r)) OR push_bit 5 (word_of_nat (c5 (unat g))))
                 OR push_bit 10 (word_of_nat (c5 (unat b))) \<and>
           unat w = c5 (unat r) + 32 * c5 (unat g) + 1024 * c5 (unat b) \<and>
           c5 (unat r) \<le> 31 \<and> c5 (unat g) \<le> 31 \<and> c5 (unat b) \<le> 31 \<and>
           unat (((ucast r :: u16) * 31) + 127) = unat r * 31 + 127 \<and>
           unat (((ucast g :: u16) * 31) + 127) = unat g * 31 + 127 \<and>
           unat (((ucast b :: u16) * 31) + 127) = unat b * 31 + 127"
proof -
  have res: "to16bpp_px [r, g, b, a] False useSTPBlack = Inr (solid r g b)"
    using assms
    by (simp add: copyto_def LOWER_ALPHA_BOUND_def UPPER_ALPHA_BOUND_def TRANSPARENT_COLOR_def)
  have word: "solid r g b = (word_of_nat (c5 (unat r)) OR push_bit 5 (word_of_nat (c5 (unat g))))
                 OR push_bit 10 (word_of_nat (c5 (unat b)))"
    by (simp only: solid_def channel5_eq)
  show ?thesis
    using res word unat_solid [of r g b] c5_le_31 channel5_no_overflow by simp
qed

theorem to16bpp_solid_rescale_witness:
  "224 \<le> unat (255 :: u8) \<and> solid 255 128 7 \<noteq> 0x0000 \<and> c5 7 = 1 \<and>
   to16bpp_px [255, 128, 7, 255] False False = Inr 0x061F"
  using to16bpp_solid_rescale [where a = 255 and r = 255 and g = 128 and b = 7 and useSTPBlack = False]
  by (simp add: solid_def channel5_def c5_def)

section \<open>Exact quantizer\<close>

lemma index_of_less: "x \<in> set xs \<Longrightarrow> index_of xs x < length xs"
  by (induction xs) auto

lemma nth_index_of: "x \<in> set xs \<Longrightarrow> xs ! index_of xs x = x"
  by (induction xs) auto

lemma index_of_nth: "distinct xs \<Longrightarrow> i < length xs \<Longrightarrow> index_of xs (xs ! i) = i"
proof (induction xs arbitrary: i)
  case Nil
  then show ?case by simp
next
  case (Cons x xs)
  show ?case
  proof (cases i)
    case 0
    then show ?thesis by simp
  next
    case (Suc k)
    with Cons.prems have "k < length xs" and "xs ! k \<in> set xs" and "x \<notin> set xs" and "distinct xs"
      by auto
    with Cons.IH [of k] Suc show ?thesis by auto
  qed
qed

lemma map_index_of_self: "distinct xs \<Longrightarrow> map (index_of xs) xs = [0..<length xs]"
  by (rule nth_equalityI) (simp_all add: index_of_nth)

lemma reshape_map_concat:
  "\<forall>row \<in> set a. length row = w \<Longrightarrow> reshape (length a) w (map f (concat a)) = map (map f) a"
  by (induction a) simp_all

lemma rectangular_rows: "rectangular a \<Longrightarrow> \<forall>row \<in> set a. length row = shape1 a"
  by (simp add: rectangular_def)

lemma quantizeImage_pixels:
  assumes "rectangular img"
  shows "quantizeImage img numColors =
     (if length (sort (remdups (concat img))) > numColors
      then Inl (RuntimeError (length (sort (remdups (concat img)))) numColors)
      else if length (sort (remdups (concat img))) > 256 then Inl ValueError
      else Inr \<lparr> pixels = map (map (\<lambda>px. word_of_nat (index_of (sort (remdups (concat img))) px))) img,
                 palette = sort (remdups (concat img)), transparency = None \<rparr>)"
proof -
  have "reshape (length img) (shape1 img)
          (map (\<lambda>i. (word_of_nat i :: u8)) (map (index_of (sort (remdups (concat img)))) (concat img)))
        = map (map (\<lambda>px. word_of_nat (index_of (sort (remdups (concat img))) px))) img"
    using reshape_map_concat [OF rectangular_rows [OF assms], of "\<lambda>px. word_of_nat (index_of (sort (remdups (concat img))) px)"]
    by (simp add: comp_def)
  then show ?thesis
    by (simp add: quantizeImage_def unique_rows_def Let_def)
qed

lemma unat_u8_of_nat: "n < 256 \<Longrightarrow> unat (word_of_nat n :: u8) = n"
  by (simp add: unat_of_nat)

lemma strict_sorted_unique: "sorted_wrt (<) (sort (remdups xs))"
  by (simp add: strict_sorted_iff)

lemma unique_idem: "sort (remdups (sort (remdups xs))) = sort (remdups xs)"
  by (simp add: sorted_sort_id)

lemma concat_member: "i < length img \<Longrightarrow> j < length (img ! i) \<Longrightarrow> img ! i ! j \<in> set (concat img)"
proof -
  assume i: "i < length img" and j: "j < length (img ! i)"
  have "img ! i \<in> set img" using i by simp
  moreover have "img ! i ! j \<in> set (img ! i)" using j by simp
  ultimately show ?thesis by auto
qed

lemma rgba_less_iff:
  "[r, g, b, a] < [r', g', b', a'] \<longleftrightarrow>
     r < r' \<or> (r = r' \<and> (g < g' \<or> (g = g' \<and> (b < b' \<or> (b = b' \<and> a < a')))))"
  for r g b a r' g' b' a' :: u8
  by auto

lemma unat_u8_of_nat_inj: "i < 256 \<Longrightarrow> j < 256 \<Longrightarrow> (word_of_nat i :: u8) = word_of_nat j \<Longrightarrow> i = j"
  by (metis unat_u8_of_nat)

lemma distinct_colors257: "distinct_colors colors257 = 257"
proof -
  let ?f = "\<lambda>i. [word_of_nat i :: u8, 0, 0, 255]"
  have "inj_on ?f (set [0..<256])"
    by (rule inj_onI) (simp add: unat_u8_of_nat_inj)
  then have d: "distinct (map ?f [0..<256])"
    by (simp add: distinct_map)
  have notin: "[0, 1, 0, 255] \<notin> set (map ?f [0..<256])"
    by auto
  have "distinct (map ?f [0..<256] @ [[0, 1, 0, 255]])"
    using d notin by simp
  then have "card (set (map ?f [0..<256] @ [[0, 1, 0, 255]])) = length (map ?f [0..<256] @ [[0, 1, 0, 255]])"
    by (rule distinct_card)
  then show ?thesis
    by (simp add: distinct_colors_def colors257_def)
qed

lemma quantizeImage_cases:
  "quantizeImage img numColors =
     (if numColors < distinct_colors img then Inl (RuntimeError (distinct_colors img) numColors)
      else if 256 < distinct_colors img then Inl ValueError
      else Inr \<lparr> pixels = reshape (length img) (shape1 img)
                            (map (\<lambda>i. (word_of_nat i :: u8))
                               (map (index_of (sort (remdups (concat img)))) (concat img))),
                 palette = sort (remdups (concat img)), transparency = None \<rparr>)"
  by (simp add: quantizeImage_def unique_rows_def Let_def distinct_colors_def length_remdups_card_conv)

text \<open>
  Claim C7, as stated, at the image \<open>colors257\<close> and the limit 300: the image has 257
  distinct colours, which is within the limit, and the call does not return a palette of
  257 colours: storing the palette fails.
\<close>

theorem quantizeImage_palette_capacity_exceeded:
  "distinct_colors colors257 = 257 \<and> quantizeImage colors257 300 = Inl ValueError"
  by (simp add: quantizeImage_cases distinct_colors257)

text \<open>
  Claim C7, amended. For every image and limit, \<open>quantizeImage\<close> fails with the error
  that reports the number \<open>K\<close> of distinct colours exactly when \<open>K\<close> exceeds the limit.
  Otherwise, when \<open>K\<close> is at most 256, the capacity of a palette image, it returns an
  image whose palette has exactly \<open>K\<close> entries, which are the colours of the image, each
  once; and when \<open>K\<close> is above 256 and within the limit, storing the palette fails.
\<close>

theorem quantizeImage_too_many_colors:
  "(numColors < distinct_colors img \<longrightarrow>
      quantizeImage img numColors = Inl (RuntimeError (distinct_colors img) numColors)) \<and>
   (distinct_colors img \<le> numColors \<and> distinct_colors img \<le> 256 \<longrightarrow>
      (\<exists>obj. quantizeImage img numColors = Inr obj \<and>
             length (palette obj) = distinct_colors img \<and>
             distinct (palette obj) \<and>
             set (palette obj) = set (concat img))) \<and>
   (distinct_colors img \<le> numColors \<and> 256 < distinct_colors img \<longrightarrow>
      quantizeImage img numColors = Inl ValueError)"
  by (simp add: quantizeImage_cases) (simp add: distinct_colors_def length_remdups_card_conv)

theorem quantizeImage_too_many_colors_witness:
  "distinct_colors [[[255, 255, 255, 255], [0, 0, 0, 255], [255, 255, 255, 255]]] = 2 \<and>
   quantizeImage [[[255, 255, 255, 255], [0, 0, 0, 255], [255, 255, 255, 255]]] 1 = Inl (RuntimeError 2 1) \<and>
   quantizeImage [[[255, 255, 255, 255], [0, 0, 0, 255], [255, 255, 255, 255]]] 16 =
     Inr \<lparr> pixels = [[1, 0, 1]], palette = [[0, 0, 0, 255], [255, 255, 255, 255]], transparency = None \<rparr> \<and>
   quantizeImage colors257 257 = Inl ValueError"
proof -
  have c: "distinct_colors [[[255, 255, 255, 255], [0, 0, 0, 255], [255, 255, 255, 255]]] = 2"
    by (simp add: distinct_colors_def card_insert_if)
  have e: "quantizeImage [[[255, 255, 255, 255], [0, 0, 0, 255], [255, 255, 255, 255]]] 16 =
     Inr \<lparr> pixels = [[1, 0, 1]], palette = [[0, 0, 0, 255], [255, 255, 255, 255]], transparency = None \<rparr>"
    by (simp add: quantizeImage_def unique_rows_def shape1_def)
  show ?thesis
    using quantizeImage_too_many_colors
            [where img = "[[[255, 255, 255, 255], [0, 0, 0, 255], [255, 255, 255, 255]]]" and numColors = 1]
          quantizeImage_too_many_colors [where img = colors257 and numColors = 257]
          c e distinct_colors257
    by simp
qed

lemma quantize_example:
  "quantizeImage [[[9, 0, 0, 255], [0, 0, 7, 255]], [[0, 0, 7, 255], [0, 0, 7, 0]]] 16 =
     Inr \<lparr> pixels = [[2, 1], [1, 0]],
           palette = [[0, 0, 7, 0], [0, 0, 7, 255], [9, 0, 0, 255]], transparency = None \<rparr>"
  by (simp add: quantizeImage_def unique_rows_def shape1_def)

text \<open>
  Claim C8. For every image that \<open>quantizeImage\<close> accepts (the number of its distinct
  colours is within the limit and within the 256 entries of a palette), the call returns;
  the palette is the distinct colours of the image in strictly ascending lexicographic
  order of their bytes; and every pixel gets the position of its colour in the palette.
  Quantizing the palette itself, as an image of one row, gives the same palette and the
  indices \<open>0, 1, ..., N - 1\<close> in order.
\<close>

theorem quantizeImage_sorted_positions:
  assumes r: "rectangular img"
    and k: "distinct_colors img \<le> numColors"
    and n: "distinct_colors img \<le> 256"
  shows "\<exists>obj. quantizeImage img numColors = Inr obj \<and>
         sorted_wrt (<) (palette obj) \<and>
         set (palette obj) = set (concat img) \<and>
         length (pixels obj) = length img \<and>
         (\<forall>i < length img. length (pixels obj ! i) = length (img ! i) \<and>
            (\<forall>j < length (img ! i).
               unat (pixels obj ! i ! j) < length (palette obj) \<and>
               palette obj ! unat (pixels obj ! i ! j) = img ! i ! j)) \<and>
         quantizeImage [palette obj] numColors =
           Inr \<lparr> pixels = [map word_of_nat [0..<length (palette obj)]],
                 palette = palette obj, transparency = None \<rparr> \<and>
         map unat (map word_of_nat [0..<length (palette obj)] :: u8 list) = [0..<length (palette obj)]"
proof -
  define clut where "clut = sort (remdups (concat img))"
  define obj where "obj = \<lparr> pixels = map (map (\<lambda>px. word_of_nat (index_of clut px))) img,
                            palette = clut, transparency = None \<rparr>"
  have len: "length clut = distinct_colors img"
    by (simp add: clut_def distinct_colors_def length_remdups_card_conv)
  have le: "length clut \<le> numColors" using k len by simp
  have n': "length clut \<le> 256" using n len by simp
  have q: "quantizeImage img numColors = Inr obj"
    using le n' unfolding quantizeImage_pixels [OF r] clut_def [symmetric] obj_def by simp
  have pal: "palette obj = clut" and pix: "pixels obj = map (map (\<lambda>px. word_of_nat (index_of clut px))) img"
    by (simp_all add: obj_def)
  have set_clut: "set clut = set (concat img)" by (simp add: clut_def)
  have dist: "distinct clut" by (simp add: clut_def)
  have 1: "sorted_wrt (<) clut" unfolding clut_def by (rule strict_sorted_unique)
  have 4: "\<forall>i < length img. length (pixels obj ! i) = length (img ! i) \<and>
            (\<forall>j < length (img ! i).
               unat (pixels obj ! i ! j) < length clut \<and> clut ! unat (pixels obj ! i ! j) = img ! i ! j)"
  proof (intro allI impI conjI)
    fix i assume i: "i < length img"
    show "length (pixels obj ! i) = length (img ! i)" using i by (simp add: pix)
    fix j assume j: "j < length (img ! i)"
    have mem: "img ! i ! j \<in> set clut" using concat_member [OF i j] set_clut by simp
    have lt: "index_of clut (img ! i ! j) < length clut" by (rule index_of_less [OF mem])
    then have u: "unat (pixels obj ! i ! j) = index_of clut (img ! i ! j)"
      using i j n' by (simp add: pix unat_u8_of_nat)
    show "unat (pixels obj ! i ! j) < length clut" using lt u by simp
    show "clut ! unat (pixels obj ! i ! j) = img ! i ! j" using nth_index_of [OF mem] u by simp
  qed
  have rect: "rectangular [clut]" by (simp add: rectangular_def shape1_def)
  have idem: "sort (remdups clut) = clut" unfolding clut_def by (rule unique_idem)
  have 5: "quantizeImage [clut] numColors =
           Inr \<lparr> pixels = [map word_of_nat [0..<length clut]], palette = clut, transparency = None \<rparr>"
  proof -
    have "map (\<lambda>px. (word_of_nat (index_of clut px) :: u8)) clut = map word_of_nat (map (index_of clut) clut)"
      by simp
    also have "\<dots> = map word_of_nat [0..<length clut]"
      by (simp only: map_index_of_self [OF dist])
    finally show ?thesis
      using le n' by (simp add: quantizeImage_pixels [OF rect] idem)
  qed
  have 6: "map unat (map word_of_nat [0..<length clut] :: u8 list) = [0..<length clut]"
    using n' by (intro nth_equalityI) (simp_all add: unat_u8_of_nat)
  have "quantizeImage img numColors = Inr obj \<and>
         sorted_wrt (<) (palette obj) \<and>
         set (palette obj) = set (concat img) \<and>
         length (pixels obj) = length img \<and>
         (\<forall>i < length img. length (pixels obj ! i) = length (img ! i) \<and>
            (\<forall>j < length (img ! i).
               unat (pixels obj ! i ! j) < length (palette obj) \<and>
               palette obj ! unat (pixels obj ! i ! j) = img ! i ! j)) \<and>
         quantizeImage [palette obj] numColors =
           Inr \<lparr> pixels = [map word_of_nat [0..<length (palette obj)]],
                 palette = palette obj, transparency = None \<rparr> \<and>
         map unat (map word_of_nat [0..<length (palette obj)] :: u8 list) = [0..<length (palette obj)]"
    using q 1 set_clut 4 5 6 by (simp add: pal pix)
  then show ?thesis by (rule exI)
qed

theorem quantizeImage_sorted_positions_witness:
  "rectangular [[[9, 0, 0, 255], [0, 0, 7, 255]], [[0, 0, 7, 255], [0, 0, 7, 0 :: u8]]] \<and>
   distinct_colors [[[9, 0, 0, 255], [0, 0, 7, 255]], [[0, 0, 7, 255], [0, 0, 7, 0]]] = 3 \<and>
   quantizeImage [[[9, 0, 0, 255], [0, 0, 7, 255]], [[0, 0, 7, 255], [0, 0, 7, 0]]] 16 =
     Inr \<lparr> pixels = [[2, 1], [1, 0]],
           palette = [[0, 0, 7, 0], [0, 0, 7, 255], [9, 0, 0, 255]], transparency = None \<rparr> \<and>
   quantizeImage [[[0, 0, 7, 0], [0, 0, 7, 255], [9, 0, 0, 255]]] 16 =
     Inr \<lparr> pixels = [[0, 1, 2]],
           palette = [[0, 0, 7, 0], [0, 0, 7, 255], [9, 0, 0, 255]], transparency = None \<rparr>"
proof -
  have r: "rectangular [[[9, 0, 0, 255], [0, 0, 7, 255]], [[0, 0, 7, 255], [0, 0, 7, 0 :: u8]]]"
    by (simp add: rectangular_def shape1_def)
  have c: "distinct_colors [[[9, 0, 0, 255], [0, 0, 7, 255]], [[0, 0, 7, 255], [0, 0, 7, 0]]] = 3"
    by (simp add: distinct_colors_def card_insert_if)
  have k: "distinct_colors [[[9, 0, 0, 255], [0, 0, 7, 255]], [[0, 0, 7, 255], [0, 0, 7, 0]]] \<le> 16"
    and n: "distinct_colors [[[9, 0, 0, 255], [0, 0, 7, 255]], [[0, 0, 7, 255], [0, 0, 7, 0]]] \<le> 256"
    by (simp_all add: c)
  show ?thesis
    using quantizeImage_sorted_positions [OF r k n] r c
    by (auto simp add: quantize_example upt_rec)
qed

section \<open>Palette extraction\<close>

lemma assign_alpha_length: "assign_alpha clut vs = Inr pal \<Longrightarrow> length pal = length clut"
  by (auto simp add: assign_alpha_def split: if_splits)

lemma getImagePalette_length:
  "getImagePalette float_cast imageObj = Inr pal \<Longrightarrow> length pal = length (palette imageObj)"
  by (auto simp add: getImagePalette_def Let_def dest: assign_alpha_length split: option.splits sum.splits)

text \<open>
  Claim C4 states that the \<open>N\<close> transparency bytes become the alpha of the first \<open>N\<close>
  palette entries and that later entries get alpha 255. The code reads the padded byte
  string as 64-bit floats. With two palette entries and one transparency byte the padded
  string has two bytes, which is not a whole number of floats: the call fails. With eight
  transparency bytes and two entries the string is one float, and both entries receive
  the same byte, whatever the cast of that float is.
\<close>

theorem getImagePalette_transparency_as_floats:
  "getImagePalette float_cast
     \<lparr> pixels = [[0, 1]], palette = [[10, 20, 30], [40, 50, 60]], transparency = Some [0x00] \<rparr>
     = Inl ValueError \<and>
   getImagePalette float_cast
     \<lparr> pixels = [[0, 1]], palette = [[10, 20, 30], [40, 50, 60]],
       transparency = Some [0, 1, 2, 3, 4, 5, 6, 7] \<rparr>
     = Inr [[10, 20, 30, float_cast [0, 1, 2, 3, 4, 5, 6, 7]], [40, 50, 60, float_cast [0, 1, 2, 3, 4, 5, 6, 7]]]"
  by (simp add: getImagePalette_def ljust_def assign_alpha_def)

section \<open>Indexed packer\<close>

lemma sequence_map_Inr: "sequence (map Inr ys) = Inr ys"
  by (induction ys) simp_all

lemma sequence_Inr_D: "sequence xs = Inr ys \<Longrightarrow> xs = map Inr ys"
proof (induction xs arbitrary: ys)
  case Nil
  then show ?case by simp
next
  case (Cons x xs)
  then show ?case by (auto split: sum.splits)
qed

lemma sequence_Inr_iff: "sequence xs = Inr ys \<longleftrightarrow> xs = map Inr ys"
  using sequence_Inr_D sequence_map_Inr by blast

lemma to16bpp_row:
  "to16bpp [pal] forceSTP useSTPBlack = Inr clut \<longleftrightarrow>
     (\<exists>row. clut = [row] \<and> map (\<lambda>px. to16bpp_px px forceSTP useSTPBlack) pal = map Inr row)"
  by (auto simp add: to16bpp_def sequence_Inr_iff sequence_map_Inr split: sum.splits)

lemma convertIndexedImage_Inr:
  assumes "convertIndexedImage float_cast imageObj forceSTP useSTPBlack = Inr (img, clut)"
  shows "\<exists>pal row. getImagePalette float_cast imageObj = Inr pal \<and>
           map (\<lambda>px. to16bpp_px px forceSTP useSTPBlack) pal = map Inr row \<and>
           length pal \<le> 256 \<and>
           clut = [row @ replicate ((if length pal \<le> 16 then 16 else 256) - length pal) 0] \<and>
           img = (if length pal \<le> 16 then pad_odd_width (map pack_nibbles (pad_odd_width (pixels imageObj)))
                  else pad_odd_width (pixels imageObj))"
proof -
  from assms obtain pal where pal: "getImagePalette float_cast imageObj = Inr pal"
    by (auto simp add: convertIndexedImage_def split: sum.splits)
  from assms pal obtain c0 where c0: "to16bpp [pal] forceSTP useSTPBlack = Inr c0"
    by (auto simp add: convertIndexedImage_def split: sum.splits)
  then obtain row where row: "c0 = [row]" "map (\<lambda>px. to16bpp_px px forceSTP useSTPBlack) pal = map Inr row"
    by (auto simp add: to16bpp_row)
  have len: "length row = length pal" using row(2) by (metis length_map)
  have sh: "shape1 c0 = length pal" by (simp add: row(1) shape1_def len)
  show ?thesis
    using assms pal c0 row len sh
    by (auto simp add: convertIndexedImage_def Let_def c_zeros_def nat_diff_distrib split: if_splits)
qed

lemma to16bpp_px_total: "3 \<le> length px \<Longrightarrow> \<exists>w. to16bpp_px px forceSTP useSTPBlack = Inr w"
  by (cases "(px, forceSTP, useSTPBlack)" rule: to16bpp_px.cases) (simp_all add: Let_def)

lemma rgba_entry_length: "length c = 3 \<or> length c = 4 \<Longrightarrow> length (rgba_entry c) = 4"
  by (cases c rule: rgba_entry.cases) simp_all

lemma encode_all:
  assumes "\<forall>px \<in> set pal. 3 \<le> length px"
  shows "\<exists>row. map (\<lambda>px. to16bpp_px px forceSTP useSTPBlack) pal = map Inr row"
  using assms
proof (induction pal)
  case Nil
  then show ?case by simp
next
  case (Cons px pal)
  then obtain row where row: "map (\<lambda>px. to16bpp_px px forceSTP useSTPBlack) pal = map Inr row"
    by auto
  from Cons.prems obtain w where w: "to16bpp_px px forceSTP useSTPBlack = Inr w"
    using to16bpp_px_total [of px forceSTP useSTPBlack] by auto
  have "map (\<lambda>px. to16bpp_px px forceSTP useSTPBlack) (px # pal) = map Inr (w # row)"
    using row w by simp
  then show ?case by blast
qed

lemma convertIndexedImage_eq:
  assumes pal: "getImagePalette float_cast imageObj = Inr pal"
    and enc: "map (\<lambda>px. to16bpp_px px forceSTP useSTPBlack) pal = map Inr row"
    and le: "length pal \<le> 256"
  shows "convertIndexedImage float_cast imageObj forceSTP useSTPBlack =
           Inr (if length pal \<le> 16 then pad_odd_width (map pack_nibbles (pad_odd_width (pixels imageObj)))
                else pad_odd_width (pixels imageObj),
                [row @ replicate ((if length pal \<le> 16 then 16 else 256) - length pal) 0])"
proof -
  have c0: "to16bpp [pal] forceSTP useSTPBlack = Inr [row]"
    using enc by (simp add: to16bpp_row)
  have len: "length row = length pal" using enc by (metis length_map)
  show ?thesis
    using le by (simp add: convertIndexedImage_def pal c0 shape1_def len Let_def c_zeros_def nat_diff_distrib)
qed

lemma convert_example:
  "convertIndexedImage (\<lambda>_. 0)
     \<lparr> pixels = [[0, 1]], palette = [[0, 0, 0, 255], [255, 255, 255, 255]], transparency = None \<rparr>
     False False =
   Inr ([[0x10, 0x00]], [[0x0421, 0x7FFF] @ replicate 14 0])"
  by (simp add: eval_defs)

lemma convertIndexedImage_returns:
  assumes t: "transparency imageObj = None"
    and le: "length (palette imageObj) \<le> 256"
    and chan: "\<forall>c \<in> set (palette imageObj). length c = 3 \<or> length c = 4"
  shows "\<exists>img clut. convertIndexedImage float_cast imageObj forceSTP useSTPBlack = Inr (img, clut)"
proof -
  have pal: "getImagePalette float_cast imageObj = Inr (map rgba_entry (palette imageObj))"
    by (simp add: getImagePalette_def t)
  have "\<forall>px \<in> set (map rgba_entry (palette imageObj)). 3 \<le> length px"
    using chan by (auto simp add: rgba_entry_length)
  from encode_all [OF this] obtain row where
    row: "map (\<lambda>px. to16bpp_px px forceSTP useSTPBlack) (map rgba_entry (palette imageObj)) = map Inr row"
    by blast
  show ?thesis
    using convertIndexedImage_eq [OF pal row] le by simp
qed

lemma convert_example_256:
  "convertIndexedImage (\<lambda>_. 0)
     \<lparr> pixels = [[16, 3, 0]],
       palette = [[0, 0, 0], [8, 0, 0], [16, 0, 0], [24, 0, 0], [32, 0, 0], [40, 0, 0], [48, 0, 0],
                  [56, 0, 0], [64, 0, 0], [72, 0, 0], [80, 0, 0], [88, 0, 0], [96, 0, 0], [104, 0, 0],
                  [112, 0, 0], [120, 0, 0], [255, 255, 255]],
       transparency = None \<rparr>
     False False =
   Inr ([[16, 3, 0, 0]],
        [[0x0421, 1, 2, 3, 4, 5, 6, 7, 8, 9, 10, 11, 12, 13, 14, 15, 0x7FFF] @ replicate 239 0])"
  by (simp add: eval_defs)

text \<open>
  Claim C9. An indexed image with no transparency entry and a palette of at most 256
  RGB or RGBA colours is always converted; and whenever \<open>convertIndexedImage\<close>
  returns, the palette it returns is one row of exactly 16 words when the source palette
  has at most 16 entries and of exactly 256 words otherwise: the first entries are the
  encoded colours of the source palette, in order, and every entry after them is zero.
\<close>

theorem convertIndexedImage_palette_size:
  "(transparency imageObj = None \<and> length (palette imageObj) \<le> 256 \<and>
      (\<forall>c \<in> set (palette imageObj). length c = 3 \<or> length c = 4) \<longrightarrow>
      (\<exists>img clut. convertIndexedImage float_cast imageObj forceSTP useSTPBlack = Inr (img, clut))) \<and>
   (\<forall>img clut. convertIndexedImage float_cast imageObj forceSTP useSTPBlack = Inr (img, clut) \<longrightarrow>
      (\<exists>pal row. getImagePalette float_cast imageObj = Inr pal \<and>
           length pal = length (palette imageObj) \<and>
           clut = [row] \<and>
           length row = (if length (palette imageObj) \<le> 16 then 16 else 256) \<and>
           (\<forall>i < length pal. to16bpp_px (pal ! i) forceSTP useSTPBlack = Inr (row ! i)) \<and>
           (\<forall>i. length pal \<le> i \<and> i < length row \<longrightarrow> row ! i = 0)))"
proof (intro conjI allI impI)
  assume "transparency imageObj = None \<and> length (palette imageObj) \<le> 256 \<and>
      (\<forall>c \<in> set (palette imageObj). length c = 3 \<or> length c = 4)"
  then show "\<exists>img clut. convertIndexedImage float_cast imageObj forceSTP useSTPBlack = Inr (img, clut)"
    using convertIndexedImage_returns [of imageObj float_cast forceSTP useSTPBlack] by blast
next
  fix img clut
  assume conv: "convertIndexedImage float_cast imageObj forceSTP useSTPBlack = Inr (img, clut)"
  from convertIndexedImage_Inr [OF conv] obtain pal row0 where
    pal: "getImagePalette float_cast imageObj = Inr pal"
    and enc: "map (\<lambda>px. to16bpp_px px forceSTP useSTPBlack) pal = map Inr row0"
    and le: "length pal \<le> 256"
    and clut: "clut = [row0 @ replicate ((if length pal \<le> 16 then 16 else 256) - length pal) 0]"
    by blast
  define row where "row = row0 @ replicate ((if length pal \<le> 16 then 16 else 256) - length pal) 0"
  have len0: "length row0 = length pal" using enc by (metis length_map)
  have n: "length pal = length (palette imageObj)" by (rule getImagePalette_length [OF pal])
  have len: "length row = (if length pal \<le> 16 then 16 else 256)"
    using le by (simp add: row_def len0)
  have head: "\<forall>i < length pal. to16bpp_px (pal ! i) forceSTP useSTPBlack = Inr (row ! i)"
  proof (intro allI impI)
    fix i assume i: "i < length pal"
    have "map (\<lambda>px. to16bpp_px px forceSTP useSTPBlack) pal ! i = map Inr row0 ! i"
      by (simp only: enc)
    then have "to16bpp_px (pal ! i) forceSTP useSTPBlack = Inr (row0 ! i)"
      using i len0 by simp
    then show "to16bpp_px (pal ! i) forceSTP useSTPBlack = Inr (row ! i)"
      using i len0 by (simp add: row_def nth_append)
  qed
  have tail: "\<forall>i. length pal \<le> i \<and> i < length row \<longrightarrow> row ! i = 0"
    using len by (auto simp add: row_def nth_append len0)
  show "\<exists>pal row. getImagePalette float_cast imageObj = Inr pal \<and>
           length pal = length (palette imageObj) \<and>
           clut = [row] \<and>
           length row = (if length (palette imageObj) \<le> 16 then 16 else 256) \<and>
           (\<forall>i < length pal. to16bpp_px (pal ! i) forceSTP useSTPBlack = Inr (row ! i)) \<and>
           (\<forall>i. length pal \<le> i \<and> i < length row \<longrightarrow> row ! i = 0)"
    using pal n clut len head tail unfolding row_def [symmetric]
    by (intro exI [of _ pal] exI [of _ row]) simp
qed

theorem convertIndexedImage_palette_size_witness:
  "convertIndexedImage (\<lambda>_. 0)
     \<lparr> pixels = [[0, 1]], palette = [[0, 0, 0, 255], [255, 255, 255, 255]], transparency = None \<rparr>
     False False =
   Inr ([[0x10, 0x00]], [[0x0421, 0x7FFF] @ replicate 14 0]) \<and>
   length ([0x0421, 0x7FFF] @ replicate 14 (0 :: u16)) = 16 \<and>
   convertIndexedImage (\<lambda>_. 0)
     \<lparr> pixels = [[16, 3, 0]],
       palette = [[0, 0, 0], [8, 0, 0], [16, 0, 0], [24, 0, 0], [32, 0, 0], [40, 0, 0], [48, 0, 0],
                  [56, 0, 0], [64, 0, 0], [72, 0, 0], [80, 0, 0], [88, 0, 0], [96, 0, 0], [104, 0, 0],
                  [112, 0, 0], [120, 0, 0], [255, 255, 255]],
       transparency = None \<rparr>
     False False =
   Inr ([[16, 3, 0, 0]],
        [[0x0421, 1, 2, 3, 4, 5, 6, 7, 8, 9, 10, 11, 12, 13, 14, 15, 0x7FFF] @ replicate 239 0]) \<and>
   length ([0x0421, 1, 2, 3, 4, 5, 6, 7, 8, 9, 10, 11, 12, 13, 14, 15, 0x7FFF] @ replicate 239 (0 :: u16)) = 256"
  using convertIndexedImage_palette_size
          [where imageObj = "\<lparr> pixels = [[0, 1]], palette = [[0, 0, 0, 255], [255, 255, 255, 255]],
                                 transparency = None \<rparr>"
             and float_cast = "\<lambda>_. 0" and forceSTP = False and useSTPBlack = False]
        convertIndexedImage_palette_size
          [where imageObj = "\<lparr> pixels = [[16, 3, 0]],
       palette = [[0, 0, 0], [8, 0, 0], [16, 0, 0], [24, 0, 0], [32, 0, 0], [40, 0, 0], [48, 0, 0],
                  [56, 0, 0], [64, 0, 0], [72, 0, 0], [80, 0, 0], [88, 0, 0], [96, 0, 0], [104, 0, 0],
                  [112, 0, 0], [120, 0, 0], [255, 255, 255]],
       transparency = None \<rparr>"
             and float_cast = "\<lambda>_. 0" and forceSTP = False and useSTPBlack = False]
        convert_example convert_example_256
  by simp

lemma half_pad: "(w + w mod 2) div 2 = (w + 1) div 2" for w :: nat
  by (cases "even w") (auto elim!: evenE oddE)

lemma round_up_even: "p + p mod 2 = 2 * ((p + 1) div 2)" for p :: nat
  by (cases "even p") (auto elim!: evenE oddE)

lemma quarter_pad: "(w + 3) div 4 = ((w + 1) div 2 + 1) div 2" for w :: nat
proof -
  have "(w + 3) div 4 = (w + 3) div 2 div 2"
    using div_mult2_eq [of "w + 3" 2 2] by simp
  also have "(w + 3) div 2 = (w + 1) div 2 + 1" by simp
  finally show ?thesis .
qed

lemma packed_width: "(w + w mod 2) div 2 + (w + w mod 2) div 2 mod 2 = 2 * ((w + 3) div 4)" for w :: nat
proof -
  have "(w + w mod 2) div 2 + (w + w mod 2) div 2 mod 2 = (w + 1) div 2 + (w + 1) div 2 mod 2"
    by (simp only: half_pad)
  also have "\<dots> = 2 * (((w + 1) div 2 + 1) div 2)"
    by (rule round_up_even)
  also have "\<dots> = 2 * ((w + 3) div 4)"
    by (simp only: quarter_pad)
  finally show ?thesis .
qed

lemma length_slice_even: "length (slice_even xs) = (length xs + 1) div 2"
  by (induction xs rule: slice_even.induct) simp_all

lemma length_slice_odd: "length (slice_odd xs) = length xs div 2"
  by (induction xs rule: slice_odd.induct) simp_all

lemma length_pack_nibbles: "length (pack_nibbles xs) = length xs div 2"
  by (simp add: pack_nibbles_def length_slice_even length_slice_odd)

lemma pad_odd_width_rows: "rectangular a \<Longrightarrow> pad_odd_width a = map pad_row a"
proof -
  assume r: "rectangular a"
  show ?thesis
  proof (cases "odd (shape1 a)")
    case True
    have "map (\<lambda>row. row @ [0]) a = map pad_row a"
      using r True by (intro map_cong) (simp_all add: pad_row_def rectangular_def)
    then show ?thesis using True by (simp add: pad_odd_width_def)
  next
    case False
    have "map pad_row a = a"
      using r False by (intro map_idI) (simp add: pad_row_def rectangular_def)
    then show ?thesis using False by (simp add: pad_odd_width_def)
  qed
qed

lemma rectangular_pad: "rectangular a \<Longrightarrow> rectangular (map pad_row a)"
  by (cases a) (auto simp add: rectangular_def shape1_def pad_row_def)

lemma rectangular_pack: "rectangular a \<Longrightarrow> rectangular (map pack_nibbles a)"
  by (cases a) (auto simp add: rectangular_def shape1_def length_pack_nibbles)

lemma length_pad_row: "length (pad_row r) = length r + length r mod 2"
  by (auto simp add: pad_row_def odd_iff_mod_2_eq_one)

lemma packed_row_length: "length (pad_row (pack_nibbles (pad_row r))) = 2 * ((length r + 3) div 4)"
  unfolding length_pad_row length_pack_nibbles by (rule packed_width)

lemma rectangular_length: "rectangular a \<Longrightarrow> row \<in> set a \<Longrightarrow> length row = shape1 a"
  by (simp add: rectangular_def)

lemma pack_4bpp_rows:
  assumes "rectangular a"
  shows "pad_odd_width (map pack_nibbles (pad_odd_width a)) = map (\<lambda>r. pad_row (pack_nibbles (pad_row r))) a"
proof -
  have 1: "pad_odd_width a = map pad_row a" by (rule pad_odd_width_rows [OF assms])
  have "rectangular (map pack_nibbles (map pad_row a))"
    by (intro rectangular_pack rectangular_pad assms)
  then have "pad_odd_width (map pack_nibbles (map pad_row a)) = map pad_row (map pack_nibbles (map pad_row a))"
    by (rule pad_odd_width_rows)
  then show ?thesis by (simp add: 1 comp_def)
qed

text \<open>
  Claim C10. Whenever \<open>convertIndexedImage\<close> returns, every row of the image it returns
  has an even number of bytes. An index buffer of odd width gets one column of zeros
  before packing; with at most 16 colours the rows are then packed two indices to a byte
  and get one more zero byte when the packed width is odd, which gives
  \<open>2 * ((W + 3) div 4)\<close> bytes for width \<open>W\<close>; with more colours a row has
  \<open>W + W mod 2\<close> bytes.
\<close>

theorem convertIndexedImage_rows_even:
  assumes conv: "convertIndexedImage float_cast imageObj forceSTP useSTPBlack = Inr (img, clut)"
    and rect: "rectangular (pixels imageObj)"
  shows "(\<forall>row \<in> set img. even (length row)) \<and>
         length img = length (pixels imageObj) \<and>
         (length (palette imageObj) \<le> 16 \<longrightarrow>
            img = pad_odd_width (map pack_nibbles (pad_odd_width (pixels imageObj))) \<and>
            (\<forall>row \<in> set img. length row = 2 * ((shape1 (pixels imageObj) + 3) div 4))) \<and>
         (16 < length (palette imageObj) \<longrightarrow>
            img = pad_odd_width (pixels imageObj) \<and>
            (\<forall>row \<in> set img. length row = shape1 (pixels imageObj) + shape1 (pixels imageObj) mod 2))"
proof -
  from convertIndexedImage_Inr [OF conv] obtain pal where
    pal: "getImagePalette float_cast imageObj = Inr pal"
    and img: "img = (if length pal \<le> 16
                     then pad_odd_width (map pack_nibbles (pad_odd_width (pixels imageObj)))
                     else pad_odd_width (pixels imageObj))"
    by blast
  have n: "length pal = length (palette imageObj)" by (rule getImagePalette_length [OF pal])
  show ?thesis
  proof (cases "length pal \<le> 16")
    case True
    have i4: "img = pad_odd_width (map pack_nibbles (pad_odd_width (pixels imageObj)))"
      using img True by simp
    have eq: "img = map (\<lambda>r. pad_row (pack_nibbles (pad_row r))) (pixels imageObj)"
      using i4 pack_4bpp_rows [OF rect] by simp
    have ln: "length img = length (pixels imageObj)" by (simp add: eq)
    have len: "\<forall>row \<in> set img. length row = 2 * ((shape1 (pixels imageObj) + 3) div 4)"
      using rectangular_length [OF rect] by (auto simp add: eq packed_row_length)
    then have ev: "\<forall>row \<in> set img. even (length row)" by simp
    have small: "length (palette imageObj) \<le> 16" using True n by simp
    show ?thesis
      using ev ln i4 len small by (intro conjI impI) simp_all
  next
    case False
    have i8: "img = pad_odd_width (pixels imageObj)"
      using img False by simp
    have eq: "img = map pad_row (pixels imageObj)"
      using i8 pad_odd_width_rows [OF rect] by simp
    have ln: "length img = length (pixels imageObj)" by (simp add: eq)
    have len: "\<forall>row \<in> set img. length row = shape1 (pixels imageObj) + shape1 (pixels imageObj) mod 2"
      using rectangular_length [OF rect] by (auto simp add: eq length_pad_row)
    have ev: "\<forall>row \<in> set img. even (length row)"
    proof
      fix row assume "row \<in> set img"
      then have "length row = shape1 (pixels imageObj) + shape1 (pixels imageObj) mod 2"
        using len by blast
      then show "even (length row)" by (simp add: round_up_even)
    qed
    have large: "16 < length (palette imageObj)" using False n by simp
    show ?thesis
      using ev ln i8 len large by (intro conjI impI) simp_all
  qed
qed

theorem convertIndexedImage_rows_even_witness:
  "rectangular [[0, 1 :: u8]] \<and>
   (\<exists>img clut. convertIndexedImage (\<lambda>_. 0)
       \<lparr> pixels = [[0, 1]], palette = [[0, 0, 0, 255], [255, 255, 255, 255]], transparency = None \<rparr>
       False False = Inr (img, clut) \<and> img = [[0x10, 0x00]] \<and> even (length (img ! 0)))"
proof -
  have r: "rectangular (pixels \<lparr> pixels = [[0, 1]], palette = [[0, 0, 0, 255], [255, 255, 255, 255]], transparency = None \<rparr>)"
    by (simp add: rectangular_def shape1_def)
  show ?thesis
    using convertIndexedImage_rows_even [OF convert_example r] convert_example r
    by (simp add: pad_odd_width_def shape1_def pack_nibbles_def)
qed

section \<open>Orchestration\<close>

text \<open>
  Claim C3 states that at depth 16 the encoder runs with both requested flags. The call
  at depth 16 passes \<open>force_stp\<close> only: an opaque black pixel converted with
  \<open>stp_black\<close> set comes out as \<open>0x0421\<close>, where the encoder with both flags gives
  \<open>0x8000\<close>.
\<close>

theorem main_direct16_ignores_stp_black:
  "main (\<lambda>_. 0) \<lparr> bpp = 16, force_stp = False, stp_black = True,
                 input = [[[0, 0, 0, 255]]], clutOutput = False \<rparr>
     = Inr (Direct16 [[0x0421]], None) \<and>
   to16bpp [[[0, 0, 0, 255]]] False True = Inr [[0x8000]]"
  by (simp add: eval_defs)

lemma main_depth8_as_depth4:
  assumes "distinct_colors (input a) \<le> 16"
  shows "main float_cast (a\<lparr>bpp := 8\<rparr>) = main float_cast (a\<lparr>bpp := 4\<rparr>)"
proof -
  have "quantizeImage (input a) (2 ^ 8) = quantizeImage (input a) (2 ^ 4)"
    using assms by (simp add: quantizeImage_cases)
  then show ?thesis by (simp add: main_def cong: sum.case_cong)
qed

text \<open>
  Claim C2 states that a conversion requested at depth 8 of an image with at most 16
  colours writes one byte per pixel. The converter packs the pixels whenever the palette
  has at most 16 entries, whatever depth was requested: for the image of one row with the
  pixels \<open>(0, 0, 0, 255)\<close> and \<open>(255, 255, 255, 255)\<close>, converted at depth 8, the index
  buffer is \<open>[0, 1]\<close>, and the image written is not these two bytes but the packed byte
  \<open>0x10\<close> and one padding byte. The palette is padded to 16 entries, as the claim says.
\<close>

theorem depth8_small_palette_not_byte_per_pixel:
  "main (\<lambda>_. 0) \<lparr> bpp = 8, force_stp = False, stp_black = False,
                 input = [[[0, 0, 0, 255], [255, 255, 255, 255]]], clutOutput = True \<rparr>
     = Inr (Indexed [[0x10, 0x00]], Some [[0x0421, 0x7FFF] @ replicate 14 0]) \<and>
   quantizeImage [[[0, 0, 0, 255], [255, 255, 255, 255]]] (2 ^ 8)
     = Inr \<lparr> pixels = [[0, 1]], palette = [[0, 0, 0, 255], [255, 255, 255, 255]], transparency = None \<rparr>"
  by (simp add: eval_defs)

end
